theory Spec2Isabelle
  imports Main "HOL-Library.Word"
begin

section \<open>The board: a 3 by 3 array of unsigned bytes\<close>

text \<open>
  The class \<open>Board\<close> of \<^verbatim>\<open>tic_tac_toe.py\<close> keeps a numpy array of shape (3,3) and
  dtype uint8. A cell is an 8-bit word; the array value is the list of its rows. The marks
  are 0 (empty), 1 (player one) and 2 (player two). A player argument is a mark to be
  written into a cell, so it is a value of the element type: an integer outside 0..255
  cannot be stored in such an array as it is: \<open>play_numeric\<close> below is \<^verbatim>\<open>Board.play\<close>
  called with any Python integer as player, with the conversion numpy makes at the
  assignment. Nothing in the program restricts a player argument to the marks 1 and 2.
\<close>

type_synonym u8 = "8 word"
type_synonym grid = "u8 list list"

text \<open>\<^verbatim>\<open>np.zeros(shape=(3,3), dtype='uint8')\<close>\<close>

definition zeros :: grid where
  "zeros = replicate 3 (replicate 3 0)"

text \<open>The shape of a 3 by 3 array: three rows of three cells.\<close>

definition shape3 :: "'a list list \<Rightarrow> bool" where
  "shape3 b = (length b = 3 \<and> list_all (\<lambda>r. length r = 3) b)"

text \<open>\<^verbatim>\<open>board.shape[0]\<close> and \<^verbatim>\<open>board.shape[1]\<close>\<close>

definition n_rows :: "'a list list \<Rightarrow> nat" where
  "n_rows b = length b"

definition n_cols :: "'a list list \<Rightarrow> nat" where
  "n_cols b = (case b of [] \<Rightarrow> 0 | r # _ \<Rightarrow> length r)"

text \<open>\<^verbatim>\<open>board[i,j] = v\<close>, for an index inside the array.\<close>

definition setitem :: "'a list list \<Rightarrow> nat \<Rightarrow> nat \<Rightarrow> 'a \<Rightarrow> 'a list list" where
  "setitem b i j v = b[i := (b ! i)[j := v]]"

subsection \<open>\<^verbatim>\<open>Board.play\<close>\<close>

text \<open>
  The method for a player that is a mark, a value of the element type. The coordinates
  are Python integers and may be negative. The method returns the flag
  and leaves the array of the object changed or not; the model returns the flag, the
  line printed (if any) and the array. The test \<^verbatim>\<open>elif self.__board[row_i,col_j]\<close>
  is the truth value of the cell: true when it is not 0.
\<close>

definition play :: "grid \<Rightarrow> u8 \<Rightarrow> int \<Rightarrow> int \<Rightarrow> bool \<times> string list \<times> grid" where
  "play board player row_i col_j =
     (if row_i < 0 \<or> row_i > int (n_rows board) - 1 \<or> col_j < 0 \<or> col_j > int (n_cols board) - 1
      then (False, [''Incorrect coordinate, please try again!''], board)
      else if board ! nat row_i ! nat col_j \<noteq> 0
      then (False, [''Cannot play on this grid, please try again!''], board)
      else (True, [], setitem board (nat row_i) (nat col_j) player))"

text \<open>
  The same method called with an arbitrary Python integer as player. The assignment
  \<^verbatim>\<open>self.__board[row_i,col_j] = player\<close> converts the integer to the element type:
  numpy 2 raises OverflowError for an integer outside 0..255 (earlier versions stored it
  modulo 256). The two rejecting branches return before the assignment. A float, which
  numpy truncates, is not modelled.
\<close>

datatype py_error = OverflowError

definition to_uint8 :: "int \<Rightarrow> py_error + u8" where
  "to_uint8 v = (if 0 \<le> v \<and> v \<le> 255 then Inr (word_of_int v) else Inl OverflowError)"

definition play_numeric ::
  "grid \<Rightarrow> int \<Rightarrow> int \<Rightarrow> int \<Rightarrow> py_error + bool \<times> string list \<times> grid" where
  "play_numeric board player row_i col_j =
     (if row_i < 0 \<or> row_i > int (n_rows board) - 1 \<or> col_j < 0 \<or> col_j > int (n_cols board) - 1
      then Inr (False, [''Incorrect coordinate, please try again!''], board)
      else if board ! nat row_i ! nat col_j \<noteq> 0
      then Inr (False, [''Cannot play on this grid, please try again!''], board)
      else (case to_uint8 player of
              Inl e \<Rightarrow> Inl e
            | Inr v \<Rightarrow> Inr (True, [], setitem board (nat row_i) (nat col_j) v)))"

subsection \<open>\<^verbatim>\<open>Board.__check\<close> and \<^verbatim>\<open>Board.check_board\<close>\<close>

text \<open>\<^verbatim>\<open>np.all\<close> and \<^verbatim>\<open>np.any\<close> on a vector of truth values.\<close>

definition np_all :: "bool list \<Rightarrow> bool" where
  "np_all xs = list_all (\<lambda>x. x) xs"

definition np_any :: "bool list \<Rightarrow> bool" where
  "np_any xs = list_ex (\<lambda>x. x) xs"

text \<open>\<^verbatim>\<open>mask[i,:]\<close>, \<^verbatim>\<open>mask[:,i]\<close>, \<^verbatim>\<open>mask.diagonal()\<close> and \<^verbatim>\<open>mask[:,::-1]\<close>\<close>

definition row_of :: "'a list list \<Rightarrow> nat \<Rightarrow> 'a list" where
  "row_of m i = m ! i"

definition col_of :: "'a list list \<Rightarrow> nat \<Rightarrow> 'a list" where
  "col_of m i = map (\<lambda>r. r ! i) m"

definition diagonal :: "'a list list \<Rightarrow> 'a list" where
  "diagonal m = map (\<lambda>k. m ! k ! k) [0..<min (n_rows m) (n_cols m)]"

definition flip_cols :: "'a list list \<Rightarrow> 'a list list" where
  "flip_cols m = map rev m"

text \<open>
  \<^verbatim>\<open>__check\<close>: the loop over \<^verbatim>\<open>range(3)\<close> ors into \<open>win\<close> the rows and the
  columns, then the two diagonals.
\<close>

definition check :: "bool list list \<Rightarrow> bool" where
  "check msk =
     (let win = False;
          win = fold (\<lambda>i win. (win \<or> np_all (row_of msk i)) \<or> np_all (col_of msk i)) [0..<3] win;
          win = (win \<or> np_all (diagonal msk));
          win = (win \<or> np_all (diagonal (flip_cols msk)))
      in win)"

text \<open>\<^verbatim>\<open>self.__board == v\<close>, elementwise.\<close>

definition eq_mask :: "grid \<Rightarrow> u8 \<Rightarrow> bool list list" where
  "eq_mask board v = map (map (\<lambda>c. c = v)) board"

text \<open>
  \<^verbatim>\<open>check_board\<close> returns a Python integer: 0 the game is not over, 1 player one has
  won, 2 player two has won, -1 no one has won.
\<close>

definition check_board :: "grid \<Rightarrow> int" where
  "check_board board =
     (let player_1_mask = eq_mask board 1;
          player_2_mask = eq_mask board 2
      in if check player_1_mask then 1
         else if check player_2_mask then 2
         else if np_any (map np_any (eq_mask board 0)) then 0 else - 1)"

section \<open>The agent: exhaustive minimax search\<close>

text \<open>
  \<^verbatim>\<open>np.where(board == 0)\<close> gives the row and the column indexes of the cells that are 0,
  in the order numpy scans the array: row by row, each row from left to right. The model
  pairs them up at once, as \<^verbatim>\<open>zip(possible_moves_row, possible_moves_col)\<close> does.
\<close>

definition np_where_zero :: "grid \<Rightarrow> (nat \<times> nat) list" where
  "np_where_zero board =
     concat (map (\<lambda>i. map (\<lambda>j. (i, j)) (filter (\<lambda>j. board ! i ! j = 0) [0..<length (board ! i)]))
                 [0..<length board])"

text \<open>
  \<^verbatim>\<open>np.max\<close>, \<^verbatim>\<open>np.min\<close>, \<^verbatim>\<open>np.argmax\<close> and \<^verbatim>\<open>np.argmin\<close> of a list of
  scores. numpy raises on the empty list; \<open>read_board\<close> never calls them on one (lemma
  \<open>moves_nonempty\<close> below), so the functions have no equation for it. The arg functions
  return the index of the first occurrence of the extremum.
\<close>

fun np_max :: "int list \<Rightarrow> int" where
  "np_max (x # xs) = fold max xs x"

fun np_min :: "int list \<Rightarrow> int" where
  "np_min (x # xs) = fold min xs x"

fun first_index :: "'a \<Rightarrow> 'a list \<Rightarrow> nat" where
  "first_index v [] = 0"
| "first_index v (x # xs) = (if x = v then 0 else Suc (first_index v xs))"

definition np_argmax :: "int list \<Rightarrow> nat" where
  "np_argmax xs = first_index (np_max xs) xs"

definition np_argmin :: "int list \<Rightarrow> nat" where
  "np_argmin xs = first_index (np_min xs) xs"

text \<open>The number of empty cells, the measure of the search.\<close>

definition count_zero :: "grid \<Rightarrow> nat" where
  "count_zero board = sum_list (map (\<lambda>r. length (filter (\<lambda>c. c = 0) r)) board)"

subsection \<open>\<^verbatim>\<open>Agent.read_board\<close> on array values\<close>

text \<open>
  \<open>self_player\<close> is the field \<^verbatim>\<open>self.player\<close> of the agent. Every recursive call works
  on \<^verbatim>\<open>board.copy()\<close> with one cell set, so the search is a function of the value of the
  array; the version on a store of arrays, with the copies allocated one by one, follows
  below and is shown to compute this function.
\<close>

function read_board :: "u8 \<Rightarrow> grid \<Rightarrow> u8 \<Rightarrow> int \<times> (nat \<times> nat) option" where
  "read_board self_player board player =
     (let value = check_board board in
      if value \<noteq> 0 then
        (let score = (if value = - 1 then 0 else if value = uint self_player then 1 else - 1)
         in (score, None))
      else
        (let possible_moves = np_where_zero board;
             scores = map (\<lambda>(i, j).
                        fst (read_board self_player (setitem board i j player)
                               (if player = 2 then 1 else 2)))
                      possible_moves
         in if self_player = player
            then (let idx = np_argmax scores in (np_max scores, Some (possible_moves ! idx)))
            else (let idx = np_argmin scores in (np_min scores, Some (possible_moves ! idx)))))"
  by pat_completeness auto

lemma filter_zero_update:
  "j < length r \<Longrightarrow> r ! j = (0::u8) \<Longrightarrow> v \<noteq> 0 \<Longrightarrow>
   Suc (length (filter (\<lambda>c. c = 0) (r[j := v]))) = length (filter (\<lambda>c. c = 0) r)"
proof (induction r arbitrary: j)
  case Nil
  then show ?case by simp
next
  case (Cons a r)
  then show ?case by (cases j) auto
qed

lemma np_where_zero_iff:
  "(i, j) \<in> set (np_where_zero b) \<longleftrightarrow> i < length b \<and> j < length (b ! i) \<and> b ! i ! j = 0"
  by (auto simp: np_where_zero_def)

lemma count_zero_setitem:
  assumes "i < length b" "j < length (b ! i)" "b ! i ! j = 0" "v \<noteq> 0"
  shows "Suc (count_zero (setitem b i j v)) = count_zero b"
proof -
  let ?f = "\<lambda>r. length (filter (\<lambda>c. c = (0::u8)) r)"
  have pos: "0 < ?f (b ! i)"
    using assms(2,3) by (auto simp: filter_empty_conv in_set_conv_nth)
  have le: "?f (b ! i) \<le> sum_list (map ?f b)"
  proof -
    have "?f (b ! i) \<in> set (map ?f b)"
      using assms(1) by (auto simp: in_set_conv_nth intro!: image_eqI [where x = "b ! i"])
    then show ?thesis
      by (simp add: member_le_sum_list)
  qed
  have "map ?f (b[i := (b ! i)[j := v]]) = (map ?f b)[i := ?f ((b ! i)[j := v])]"
    by (simp add: map_update)
  then have "sum_list (map ?f (b[i := (b ! i)[j := v]]))
      = sum_list (map ?f b) + ?f ((b ! i)[j := v]) - ?f (b ! i)"
    using assms(1) by (simp add: sum_list_update)
  moreover have "Suc (?f ((b ! i)[j := v])) = ?f (b ! i)"
    using assms by (intro filter_zero_update) auto
  ultimately show ?thesis
    using pos le by (simp add: count_zero_def setitem_def)
qed

lemma setitem_same:
  assumes "i < length b" "j < length (b ! i)" "b ! i ! j = v"
  shows "setitem b i j v = b"
proof -
  have "(b ! i)[j := v] = b ! i"
    using assms(3) list_update_id [of "b ! i" j] by simp
  then show ?thesis
    by (simp add: setitem_def)
qed

text \<open>
  The measure of a call: twice the number of empty cells, plus one when the mark to place
  is 0 (such a call places nothing, and its recursive calls place the mark 2).
\<close>

definition search_measure :: "grid \<Rightarrow> u8 \<Rightarrow> nat" where
  "search_measure board player = 2 * count_zero board + (if player = 0 then 1 else 0)"

lemma move_decreases:
  assumes "(i, j) \<in> set (np_where_zero board)"
  shows "search_measure (setitem board i j player) (if player = 2 then 1 else 2)
         < search_measure board player"
proof -
  from assms have m: "i < length board" "j < length (board ! i)" "board ! i ! j = 0"
    by (auto simp: np_where_zero_iff)
  show ?thesis
  proof (cases "player = 0")
    case True
    with m show ?thesis
      by (simp add: setitem_same search_measure_def)
  next
    case False
    with m count_zero_setitem [of i board j player] show ?thesis
      by (auto simp: search_measure_def)
  qed
qed

termination read_board
  by (relation "measure (\<lambda>(a, b, p). search_measure b p)") (use move_decreases in auto)

declare read_board.simps [simp del]

section \<open>The outcome of a board\<close>

text \<open>
  The notions of the specification, written from its words: the scan order of the cells
  (row 0, then row 1, then row 2, each from left to right), the eight lines of three cells
  (three rows, three columns, two diagonals), a mark holding a whole line, and a board with
  an empty cell left.
\<close>

definition scan_order :: "(nat \<times> nat) list" where
  "scan_order = [(0, 0), (0, 1), (0, 2), (1, 0), (1, 1), (1, 2), (2, 0), (2, 1), (2, 2)]"

definition winning_lines :: "(nat \<times> nat) list list" where
  "winning_lines =
     [[(0, 0), (0, 1), (0, 2)], [(1, 0), (1, 1), (1, 2)], [(2, 0), (2, 1), (2, 2)],
      [(0, 0), (1, 0), (2, 0)], [(0, 1), (1, 1), (2, 1)], [(0, 2), (1, 2), (2, 2)],
      [(0, 0), (1, 1), (2, 2)], [(0, 2), (1, 1), (2, 0)]]"

definition three_in_a_row :: "grid \<Rightarrow> u8 \<Rightarrow> bool" where
  "three_in_a_row board v =
     list_ex (\<lambda>line. list_all (\<lambda>(i, j). board ! i ! j = v) line) winning_lines"

definition has_empty :: "grid \<Rightarrow> bool" where
  "has_empty board = list_ex (\<lambda>(i, j). board ! i ! j = 0) scan_order"

lemma shape3E:
  assumes "shape3 b"
  obtains a0 a1 a2 b0 b1 b2 c0 c1 c2 where "b = [[a0, a1, a2], [b0, b1, b2], [c0, c1, c2]]"
proof -
  from assms have l: "length b = 3" and r: "\<forall>r \<in> set b. length r = 3"
    by (auto simp: shape3_def list_all_iff)
  from l obtain r0 r1 r2 where b: "b = [r0, r1, r2]"
    by (auto simp: length_Suc_conv numeral_3_eq_3)
  have three: "\<And>r::'a list. length r = 3 \<Longrightarrow> \<exists>x y z. r = [x, y, z]"
    by (auto simp: length_Suc_conv numeral_3_eq_3)
  from r b three [of r0] three [of r1] three [of r2] that show thesis
    by auto
qed

lemma check_3x3:
  "check [[a, b, c], [d, e, f], [g, h, i]] =
     ((a \<and> b \<and> c) \<or> (a \<and> d \<and> g) \<or> (d \<and> e \<and> f) \<or> (b \<and> e \<and> h) \<or>
      (g \<and> h \<and> i) \<or> (c \<and> f \<and> i) \<or> (a \<and> e \<and> i) \<or> (c \<and> e \<and> g))"
  by (simp add: check_def np_all_def row_of_def col_of_def diagonal_def flip_cols_def
      n_rows_def n_cols_def upt_rec numeral_3_eq_3 numeral_2_eq_2)

lemma wins_3x3:
  "check (eq_mask [[a, b, c], [d, e, f], [g, h, i]] v) =
     ((a = v \<and> b = v \<and> c = v) \<or> (a = v \<and> d = v \<and> g = v) \<or> (d = v \<and> e = v \<and> f = v) \<or>
      (b = v \<and> e = v \<and> h = v) \<or> (g = v \<and> h = v \<and> i = v) \<or> (c = v \<and> f = v \<and> i = v) \<or>
      (a = v \<and> e = v \<and> i = v) \<or> (c = v \<and> e = v \<and> g = v))"
  by (simp add: eq_mask_def check_3x3)

lemma three_in_a_row_3x3:
  "three_in_a_row [[a, b, c], [d, e, f], [g, h, i]] v =
     ((a = v \<and> b = v \<and> c = v) \<or> (d = v \<and> e = v \<and> f = v) \<or> (g = v \<and> h = v \<and> i = v) \<or>
      (a = v \<and> d = v \<and> g = v) \<or> (b = v \<and> e = v \<and> h = v) \<or> (c = v \<and> f = v \<and> i = v) \<or>
      (a = v \<and> e = v \<and> i = v) \<or> (c = v \<and> e = v \<and> g = v))"
  by (simp add: three_in_a_row_def winning_lines_def numeral_2_eq_2)

lemma lines_reorder:
  fixes a b c d e f g h i :: bool
  shows "((a \<and> b \<and> c) \<or> (a \<and> d \<and> g) \<or> (d \<and> e \<and> f) \<or> (b \<and> e \<and> h) \<or>
      (g \<and> h \<and> i) \<or> (c \<and> f \<and> i) \<or> (a \<and> e \<and> i) \<or> (c \<and> e \<and> g)) =
     ((a \<and> b \<and> c) \<or> (d \<and> e \<and> f) \<or> (g \<and> h \<and> i) \<or>
      (a \<and> d \<and> g) \<or> (b \<and> e \<and> h) \<or> (c \<and> f \<and> i) \<or>
      (a \<and> e \<and> i) \<or> (c \<and> e \<and> g))"
  by auto

lemma check_is_three_in_a_row:
  assumes "shape3 b"
  shows "check (eq_mask b v) = three_in_a_row b v"
proof -
  from assms obtain a0 a1 a2 b0 b1 b2 c0 c1 c2
    where b: "b = [[a0, a1, a2], [b0, b1, b2], [c0, c1, c2]]"
    by (rule shape3E)
  show ?thesis
    unfolding b wins_3x3 three_in_a_row_3x3 by (rule lines_reorder)
qed

lemma any_zero_3x3:
  "np_any (map np_any (eq_mask [[a, b, c], [d, e, f], [g, h, i]] 0)) =
     (a = 0 \<or> b = 0 \<or> c = 0 \<or> d = 0 \<or> e = 0 \<or> f = 0 \<or> g = 0 \<or> h = 0 \<or> i = 0)"
  by (simp add: np_any_def eq_mask_def)

lemma has_empty_3x3:
  "has_empty [[a, b, c], [d, e, f], [g, h, i]] =
     (a = 0 \<or> b = 0 \<or> c = 0 \<or> d = 0 \<or> e = 0 \<or> f = 0 \<or> g = 0 \<or> h = 0 \<or> i = 0)"
  by (simp add: has_empty_def scan_order_def numeral_2_eq_2)

lemma any_zero_is_has_empty:
  assumes "shape3 b"
  shows "np_any (map np_any (eq_mask b 0)) = has_empty b"
proof -
  from assms obtain a0 a1 a2 b0 b1 b2 c0 c1 c2
    where b: "b = [[a0, a1, a2], [b0, b1, b2], [c0, c1, c2]]"
    by (rule shape3E)
  show ?thesis
    unfolding b by (simp only: any_zero_3x3 has_empty_3x3)
qed

lemma check_board_spec:
  assumes "shape3 b"
  shows "check_board b =
     (if three_in_a_row b 1 then 1 else if three_in_a_row b 2 then 2
      else if has_empty b then 0 else - 1)"
  using assms by (simp add: check_board_def check_is_three_in_a_row any_zero_is_has_empty)

text \<open>
  Claim C4. On every 3 by 3 board \<open>check_board\<close> returns one of the four outcomes 0 (in
  progress), 1 (player one wins), 2 (player two wins) and -1 (draw); it returns 0 exactly
  when neither player holds a line and an empty cell remains, and -1 exactly when neither
  player holds a line and no empty cell remains.
\<close>

theorem check_board_outcomes:
  assumes "shape3 b"
  shows "check_board b \<in> {0, 1, 2, - 1}
       \<and> (check_board b = 0 \<longleftrightarrow> \<not> three_in_a_row b 1 \<and> \<not> three_in_a_row b 2 \<and> has_empty b)
       \<and> (check_board b = - 1 \<longleftrightarrow> \<not> three_in_a_row b 1 \<and> \<not> three_in_a_row b 2 \<and> \<not> has_empty b)"
  by (simp add: check_board_spec [OF assms])

theorem check_board_outcomes_witness:
  "shape3 [[1, 2, 1], [1, 2, 2], [2, 1, 1 :: u8]]
   \<and> check_board [[1, 2, 1], [1, 2, 2], [2, 1, 1]] = - 1
   \<and> \<not> three_in_a_row [[1, 2, 1], [1, 2, 2], [2, 1, 1]] 1
   \<and> \<not> three_in_a_row [[1, 2, 1], [1, 2, 2], [2, 1, 1]] 2
   \<and> \<not> has_empty [[1, 2, 1], [1, 2, 2], [2, 1, 1]]"
proof -
  have s: "shape3 [[1, 2, 1], [1, 2, 2], [2, 1, 1 :: u8]]"
    by (simp add: shape3_def)
  have e: "\<not> has_empty [[1, 2, 1], [1, 2, 2], [2, 1, 1]]"
    by (simp add: has_empty_3x3)
  have t: "\<not> three_in_a_row [[1, 2, 1], [1, 2, 2], [2, 1, 1]] 1"
      "\<not> three_in_a_row [[1, 2, 1], [1, 2, 2], [2, 1, 1]] 2"
    by (simp_all add: three_in_a_row_3x3)
  from check_board_outcomes [OF s] s e t show ?thesis
    by blast
qed

text \<open>
  Claim C5. On every 3 by 3 board on which player one and player two both hold a line,
  \<open>check_board\<close> returns 1: the win of player one is reported, and no error arises.
\<close>

theorem check_board_precedence:
  assumes "shape3 b" and "three_in_a_row b 1" and "three_in_a_row b 2"
  shows "check_board b = 1"
  using assms by (simp add: check_board_spec)

theorem check_board_precedence_witness:
  "shape3 [[1, 1, 1], [2, 2, 2], [0, 0, 0 :: u8]]
   \<and> three_in_a_row [[1, 1, 1], [2, 2, 2], [0, 0, 0]] 1
   \<and> three_in_a_row [[1, 1, 1], [2, 2, 2], [0, 0, 0]] 2
   \<and> check_board [[1, 1, 1], [2, 2, 2], [0, 0, 0]] = 1"
proof -
  have s: "shape3 [[1, 1, 1], [2, 2, 2], [0, 0, 0 :: u8]]"
    by (simp add: shape3_def)
  have t: "three_in_a_row [[1, 1, 1], [2, 2, 2], [0, 0, 0]] 1"
      "three_in_a_row [[1, 1, 1], [2, 2, 2], [0, 0, 0]] 2"
    by (simp_all add: three_in_a_row_3x3)
  from check_board_precedence [OF s t] s t show ?thesis
    by simp
qed

section \<open>Moves on the board\<close>

lemma shape3_nth:
  assumes "shape3 b" "i < 3"
  shows "length (b ! i) = 3"
  using assms by (auto simp: shape3_def list_all_length)

lemma shape3_dims:
  assumes "shape3 b"
  shows "n_rows b = 3" "n_cols b = 3"
  using assms by (auto simp: shape3_def n_rows_def n_cols_def split: list.splits)

lemma shape3_setitem:
  assumes "shape3 b"
  shows "shape3 (setitem b i j v)"
proof -
  from assms have l: "length b = 3" and r: "\<forall>n < 3. length (b ! n) = 3"
    by (auto simp: shape3_def list_all_length)
  have "length (b[i := (b ! i)[j := v]] ! n) = 3" if "n < 3" for n
    using that l r by (cases "n = i") (simp_all add: nth_list_update)
  with l show ?thesis
    by (simp add: shape3_def setitem_def list_all_length)
qed

lemma setitem_nth:
  assumes "i < length b" "j < length (b ! i)"
  shows "setitem b i j v ! i' ! j' = (if i' = i \<and> j' = j then v else b ! i' ! j')"
  using assms by (auto simp: setitem_def nth_list_update)

text \<open>
  Claim C6. On every 3 by 3 board, for every mark and all coordinates: when the row or the
  column is outside 0..2 or the target cell is not empty, \<open>play\<close> returns False and the
  grid is unchanged; when the coordinates are in range and the target cell is empty, it
  returns True, the cell then holds the mark, and every other cell is unchanged.
\<close>

theorem play_result:
  assumes "shape3 b"
  shows "(row_i < 0 \<or> 3 \<le> row_i \<or> col_j < 0 \<or> 3 \<le> col_j \<or> b ! nat row_i ! nat col_j \<noteq> 0
            \<longrightarrow> fst (play b player row_i col_j) = False \<and> snd (snd (play b player row_i col_j)) = b)
       \<and> (0 \<le> row_i \<and> row_i < 3 \<and> 0 \<le> col_j \<and> col_j < 3 \<and> b ! nat row_i ! nat col_j = 0
            \<longrightarrow> fst (play b player row_i col_j) = True
              \<and> snd (snd (play b player row_i col_j)) ! nat row_i ! nat col_j = player
              \<and> (\<forall>i < 3. \<forall>j < 3. (i, j) \<noteq> (nat row_i, nat col_j)
                    \<longrightarrow> snd (snd (play b player row_i col_j)) ! i ! j = b ! i ! j)
              \<and> shape3 (snd (snd (play b player row_i col_j))))"
proof (intro conjI impI)
  assume "row_i < 0 \<or> 3 \<le> row_i \<or> col_j < 0 \<or> 3 \<le> col_j \<or> b ! nat row_i ! nat col_j \<noteq> 0"
  then show "fst (play b player row_i col_j) = False"
    and "snd (snd (play b player row_i col_j)) = b"
    using shape3_dims [OF assms] by (auto simp: play_def)
next
  assume ok: "0 \<le> row_i \<and> row_i < 3 \<and> 0 \<le> col_j \<and> col_j < 3 \<and> b ! nat row_i ! nat col_j = 0"
  then have p: "play b player row_i col_j = (True, [], setitem b (nat row_i) (nat col_j) player)"
    using shape3_dims [OF assms] by (simp add: play_def)
  from ok have r: "nat row_i < 3" "nat col_j < 3"
    by auto
  have l: "nat row_i < length b" "nat col_j < length (b ! nat row_i)"
    using assms r shape3_nth [OF assms r(1)] by (auto simp: shape3_def)
  show "fst (play b player row_i col_j) = True"
    by (simp add: p)
  show "snd (snd (play b player row_i col_j)) ! nat row_i ! nat col_j = player"
    by (simp add: p setitem_nth [OF l])
  show "\<forall>i < 3. \<forall>j < 3. (i, j) \<noteq> (nat row_i, nat col_j)
          \<longrightarrow> snd (snd (play b player row_i col_j)) ! i ! j = b ! i ! j"
    by (auto simp: p setitem_nth [OF l])
  show "shape3 (snd (snd (play b player row_i col_j)))"
    by (simp add: p shape3_setitem [OF assms])
qed

theorem play_result_witness:
  "shape3 [[1, 0, 0], [0, 2, 0], [0, 0, 0 :: u8]]
   \<and> fst (play [[1, 0, 0], [0, 2, 0], [0, 0, 0]] 1 0 3) = False
   \<and> snd (snd (play [[1, 0, 0], [0, 2, 0], [0, 0, 0]] 1 0 3)) = [[1, 0, 0], [0, 2, 0], [0, 0, 0]]
   \<and> fst (play [[1, 0, 0], [0, 2, 0], [0, 0, 0]] 1 1 1) = False
   \<and> snd (snd (play [[1, 0, 0], [0, 2, 0], [0, 0, 0]] 1 1 1)) = [[1, 0, 0], [0, 2, 0], [0, 0, 0]]
   \<and> fst (play [[1, 0, 0], [0, 2, 0], [0, 0, 0]] 1 0 2) = True
   \<and> snd (snd (play [[1, 0, 0], [0, 2, 0], [0, 0, 0]] 1 0 2)) ! nat 0 ! nat 2 = 1"
proof -
  let ?b = "[[1, 0, 0], [0, 2, 0], [0, 0, 0 :: u8]]"
  have s: "shape3 ?b"
    by (simp add: shape3_def)
  have c: "?b ! nat 1 ! nat 1 \<noteq> 0" "?b ! nat 0 ! nat 2 = 0"
    by simp_all
  from play_result [OF s, of 0 3 1] play_result [OF s, of 1 1 1] play_result [OF s, of 0 2 1] s c
  show ?thesis
    by simp
qed

lemma play_numeric_mark:
  assumes "0 \<le> player" "player \<le> 255"
  shows "play_numeric board player row_i col_j = Inr (play board (word_of_int player) row_i col_j)"
  using assms by (simp add: play_numeric_def play_def to_uint8_def)

lemma uint_of_mark:
  assumes "0 \<le> player" "player \<le> 255"
  shows "uint (word_of_int player :: u8) = player"
  using assms by (simp add: uint_word_of_int take_bit_eq_mod)

text \<open>
  Claim C10 says that any numeric player value other than 0 is written to the cell as
  given. A cell is an unsigned byte: with the player 256, or -1, on an empty cell in range
  nothing is written and the assignment raises OverflowError.
\<close>

theorem play_numeric_overflow:
  "play_numeric [[1, 0, 0], [0, 2, 0], [0, 0, 0]] 256 2 2 = Inl OverflowError
   \<and> play_numeric [[1, 0, 0], [0, 2, 0], [0, 0, 0]] (- 1) 2 2 = Inl OverflowError"
  by (simp add: play_numeric_def to_uint8_def n_rows_def n_cols_def)

text \<open>
  Claim C10, amended. The method does not check the player against the three marks: on an
  empty cell in range, the player 0 gives True with the grid exactly as before, every
  integer player from 0 to 255 is accepted and written to the cell as given, and an
  integer outside 0..255 is not written: the assignment raises OverflowError.
\<close>

theorem play_numeric_unvalidated:
  assumes "shape3 b" and "0 \<le> row_i" "row_i < 3" and "0 \<le> col_j" "col_j < 3"
    and "b ! nat row_i ! nat col_j = 0"
  shows "play_numeric b 0 row_i col_j = Inr (True, [], b)
       \<and> (\<forall>player. 0 \<le> player \<and> player \<le> 255 \<longrightarrow>
            (\<exists>g. play_numeric b player row_i col_j = Inr (True, [], g)
                 \<and> uint (g ! nat row_i ! nat col_j) = player))
       \<and> (\<forall>player. player < 0 \<or> 255 < player \<longrightarrow>
            play_numeric b player row_i col_j = Inl OverflowError)"
proof -
  have p: "play b v row_i col_j = (True, [], setitem b (nat row_i) (nat col_j) v)" for v
    using assms shape3_dims [OF assms(1)] by (simp add: play_def)
  from assms have r: "nat row_i < 3" "nat col_j < 3"
    by auto
  have l: "nat row_i < length b" "nat col_j < length (b ! nat row_i)"
    using assms(1) r shape3_nth [OF assms(1) r(1)] by (auto simp: shape3_def)
  have "setitem b (nat row_i) (nat col_j) 0 = b"
    using l assms(6) by (rule setitem_same)
  then have zero: "play_numeric b 0 row_i col_j = Inr (True, [], b)"
    using play_numeric_mark [of 0 b row_i col_j] p [of 0] by simp
  have mark: "\<exists>g. play_numeric b player row_i col_j = Inr (True, [], g)
      \<and> uint (g ! nat row_i ! nat col_j) = player"
    if "0 \<le> player \<and> player \<le> 255" for player
    using that play_numeric_mark [of player b row_i col_j] p [of "word_of_int player"]
    by (simp add: setitem_nth [OF l] uint_of_mark)
  have over: "play_numeric b player row_i col_j = Inl OverflowError"
    if "player < 0 \<or> 255 < player" for player
    using that assms shape3_dims [OF assms(1)]
    by (auto simp: play_numeric_def to_uint8_def)
  from zero mark over show ?thesis
    by blast
qed

theorem play_numeric_unvalidated_witness:
  "play_numeric [[1, 0, 0], [0, 2, 0], [0, 0, 0]] 0 2 2
     = Inr (True, [], [[1, 0, 0], [0, 2, 0], [0, 0, 0]])
   \<and> (\<exists>g. play_numeric [[1, 0, 0], [0, 2, 0], [0, 0, 0]] 7 2 2 = Inr (True, [], g)
          \<and> uint (g ! nat 2 ! nat 2) = 7)
   \<and> play_numeric [[1, 0, 0], [0, 2, 0], [0, 0, 0]] 300 2 2 = Inl OverflowError"
proof -
  let ?b = "[[1, 0, 0], [0, 2, 0], [0, 0, 0 :: u8]]"
  have s: "shape3 ?b"
    by (simp add: shape3_def)
  have r: "(0::int) \<le> 2" "(2::int) < 3"
    by simp_all
  have c: "?b ! nat 2 ! nat 2 = 0"
    by simp
  note t = play_numeric_unvalidated [OF s r r c]
  have a: "(0::int) \<le> 7 \<and> (7::int) \<le> 255" and b: "(300::int) < 0 \<or> 255 < (300::int)"
    by simp_all
  from t a b show ?thesis
    by blast
qed

section \<open>The search on a finished game\<close>

lemma read_board_stop:
  assumes "check_board board \<noteq> 0"
  shows "read_board self_player board player =
           (if check_board board = - 1 then 0
            else if check_board board = uint self_player then 1 else - 1, None)"
  using assms by (simp add: read_board.simps [of self_player board player] Let_def)

text \<open>
  Claim C3. On every board whose outcome is not 0 (in progress), \<open>read_board\<close> returns
  the score with no move: 0 for a draw (-1), 1 when the winner is the agent's own mark, -1
  when the winner is the other mark.
\<close>

theorem read_board_terminal:
  assumes "check_board board \<noteq> 0"
  shows "read_board self_player board player =
           (if check_board board = - 1 then 0
            else if check_board board = uint self_player then 1 else - 1, None)"
  using assms by (rule read_board_stop)

theorem read_board_terminal_witness:
  "check_board [[1, 1, 1], [2, 2, 0], [0, 0, 0]] \<noteq> 0
   \<and> read_board 1 [[1, 1, 1], [2, 2, 0], [0, 0, 0]] 2 = (1, None)
   \<and> read_board 2 [[1, 1, 1], [2, 2, 0], [0, 0, 0]] 2 = (- 1, None)
   \<and> read_board 2 [[1, 2, 1], [1, 2, 2], [2, 1, 1]] 1 = (0, None)"
proof -
  let ?w = "[[1, 1, 1], [2, 2, 0], [0, 0, 0 :: u8]]"
  let ?d = "[[1, 2, 1], [1, 2, 2], [2, 1, 1 :: u8]]"
  have w: "check_board ?w = 1"
    by (simp add: check_board_def wins_3x3)
  have d: "check_board ?d = - 1"
    by (simp add: check_board_def wins_3x3 any_zero_3x3)
  have w0: "check_board ?w \<noteq> 0" and d0: "check_board ?d \<noteq> 0"
    by (simp_all add: w d)
  from read_board_terminal [OF w0, of 1 2] read_board_terminal [OF w0, of 2 2]
    read_board_terminal [OF d0, of 2 1] w0
  show ?thesis
    by (simp add: w d)
qed

section \<open>The choice of the move\<close>

text \<open>
  The candidates of the specification: the empty cells in scan order. The backed-up score
  of a candidate is the score the recursive call returns for the board with the mark of
  the player to move placed on that cell, the other player to move.
\<close>

definition candidates :: "grid \<Rightarrow> (nat \<times> nat) list" where
  "candidates board = filter (\<lambda>(i, j). board ! i ! j = 0) scan_order"

definition backed_up :: "u8 \<Rightarrow> grid \<Rightarrow> u8 \<Rightarrow> nat \<times> nat \<Rightarrow> int" where
  "backed_up self_player board player m =
     fst (read_board self_player (setitem board (fst m) (snd m) player)
            (if player = 2 then 1 else 2))"

lemma moves_nonempty:
  assumes "check_board board = 0"
  shows "np_where_zero board \<noteq> []"
proof -
  from assms have "np_any (map np_any (eq_mask board 0))"
    by (simp add: check_board_def Let_def split: if_splits)
  then obtain r where r: "r \<in> set board" "0 \<in> set r"
    by (auto simp: np_any_def eq_mask_def list_ex_iff)
  then obtain i j where "i < length board" "board ! i = r" "j < length r" "r ! j = 0"
    by (auto simp: in_set_conv_nth)
  then have "(i, j) \<in> set (np_where_zero board)"
    by (simp add: np_where_zero_iff)
  then show ?thesis
    by auto
qed

lemma np_where_zero_filter:
  "np_where_zero board =
     filter (\<lambda>(i, j). board ! i ! j = 0)
       (concat (map (\<lambda>i. map (\<lambda>j. (i, j)) [0..<length (board ! i)]) [0..<length board]))"
  by (simp add: np_where_zero_def filter_concat filter_map comp_def)

lemma np_where_zero_candidates:
  assumes "shape3 board"
  shows "np_where_zero board = candidates board"
proof -
  from assms obtain a0 a1 a2 b0 b1 b2 c0 c1 c2
    where b: "board = [[a0, a1, a2], [b0, b1, b2], [c0, c1, c2]]"
    by (rule shape3E)
  have "concat (map (\<lambda>i. map (\<lambda>j. (i, j)) [0..<length (board ! i)]) [0..<length board])
      = scan_order"
    unfolding b by (simp add: scan_order_def numeral_2_eq_2)
  then show ?thesis
    by (simp add: np_where_zero_filter candidates_def)
qed

lemma np_max_Max: "xs \<noteq> [] \<Longrightarrow> np_max xs = Max (set xs)"
  by (cases xs) (simp_all add: Max.set_eq_fold [symmetric])

lemma np_min_Min: "xs \<noteq> [] \<Longrightarrow> np_min xs = Min (set xs)"
  by (cases xs) (simp_all add: Min.set_eq_fold [symmetric])

lemma first_index_first:
  assumes "v \<in> set xs"
  shows "first_index v xs < length xs \<and> xs ! first_index v xs = v
       \<and> (\<forall>k < first_index v xs. xs ! k \<noteq> v)"
  using assms
proof (induction xs)
  case Nil
  then show ?case by simp
next
  case (Cons x xs)
  show ?case
  proof (cases "x = v")
    case True
    then show ?thesis by simp
  next
    case False
    with Cons have ih: "first_index v xs < length xs" "xs ! first_index v xs = v"
      "\<forall>k < first_index v xs. xs ! k \<noteq> v"
      by auto
    have "(x # xs) ! k \<noteq> v" if "k < Suc (first_index v xs)" for k
      using that False ih(3) by (cases k) auto
    with False ih show ?thesis
      by simp
  qed
qed

lemma np_argmax_first:
  assumes "xs \<noteq> []"
  shows "np_argmax xs < length xs" "xs ! np_argmax xs = np_max xs"
    "\<forall>k < length xs. xs ! k \<le> np_max xs" "\<forall>k < np_argmax xs. xs ! k < np_max xs"
proof -
  have m: "np_max xs \<in> set xs"
    using assms by (simp add: np_max_Max)
  note f = first_index_first [OF m]
  show "np_argmax xs < length xs" "xs ! np_argmax xs = np_max xs"
    using f by (simp_all add: np_argmax_def)
  show le: "\<forall>k < length xs. xs ! k \<le> np_max xs"
    using assms by (simp add: np_max_Max)
  show "\<forall>k < np_argmax xs. xs ! k < np_max xs"
  proof (intro allI impI)
    fix k assume k: "k < np_argmax xs"
    with f have "xs ! k \<noteq> np_max xs" "k < length xs"
      by (auto simp: np_argmax_def)
    with le show "xs ! k < np_max xs"
      by (simp add: order_less_le)
  qed
qed

lemma np_argmin_first:
  assumes "xs \<noteq> []"
  shows "np_argmin xs < length xs" "xs ! np_argmin xs = np_min xs"
    "\<forall>k < length xs. np_min xs \<le> xs ! k" "\<forall>k < np_argmin xs. np_min xs < xs ! k"
proof -
  have m: "np_min xs \<in> set xs"
    using assms by (simp add: np_min_Min)
  note f = first_index_first [OF m]
  show "np_argmin xs < length xs" "xs ! np_argmin xs = np_min xs"
    using f by (simp_all add: np_argmin_def)
  show le: "\<forall>k < length xs. np_min xs \<le> xs ! k"
    using assms by (simp add: np_min_Min)
  show "\<forall>k < np_argmin xs. np_min xs < xs ! k"
  proof (intro allI impI)
    fix k assume k: "k < np_argmin xs"
    with f have "xs ! k \<noteq> np_min xs" "k < length xs"
      by (auto simp: np_argmin_def)
    with le show "np_min xs < xs ! k"
      by (simp add: order_less_le)
  qed
qed

lemma read_board_search:
  assumes "check_board board = 0"
  shows "read_board self_player board player =
     (let possible_moves = np_where_zero board;
          scores = map (backed_up self_player board player) possible_moves
      in if self_player = player
         then (np_max scores, Some (possible_moves ! np_argmax scores))
         else (np_min scores, Some (possible_moves ! np_argmin scores)))"
proof -
  have "(\<lambda>(i, j). fst (read_board self_player (setitem board i j player)
            (if player = 2 then 1 else 2))) = backed_up self_player board player"
    by (auto simp: backed_up_def fun_eq_iff)
  then show ?thesis
    using assms by (simp add: read_board.simps [of self_player board player] Let_def)
qed

lemma read_board_choice:
  assumes "shape3 board" and "check_board board = 0"
  shows "\<exists>k < length (candidates board).
     read_board self_player board player =
       (backed_up self_player board player (candidates board ! k), Some (candidates board ! k))
     \<and> (if self_player = player
        then (\<forall>k' < length (candidates board).
                 backed_up self_player board player (candidates board ! k')
                 \<le> backed_up self_player board player (candidates board ! k))
           \<and> (\<forall>k' < k. backed_up self_player board player (candidates board ! k')
                 < backed_up self_player board player (candidates board ! k))
        else (\<forall>k' < length (candidates board).
                 backed_up self_player board player (candidates board ! k)
                 \<le> backed_up self_player board player (candidates board ! k'))
           \<and> (\<forall>k' < k. backed_up self_player board player (candidates board ! k)
                 < backed_up self_player board player (candidates board ! k')))"
proof -
  let ?cs = "candidates board"
  let ?f = "backed_up self_player board player"
  let ?scores = "map ?f ?cs"
  have cs: "np_where_zero board = ?cs"
    using assms(1) by (rule np_where_zero_candidates)
  have ne: "?scores \<noteq> []"
    using moves_nonempty [OF assms(2)] cs by simp
  have rb: "read_board self_player board player =
      (if self_player = player
       then (np_max ?scores, Some (?cs ! np_argmax ?scores))
       else (np_min ?scores, Some (?cs ! np_argmin ?scores)))"
    using read_board_search [OF assms(2), of self_player player] cs by (simp add: Let_def)
  show ?thesis
  proof (cases "self_player = player")
    case True
    note a = np_argmax_first [OF ne]
    let ?k = "np_argmax ?scores"
    have k: "?k < length ?cs"
      using a(1) by simp
    have v: "np_max ?scores = ?f (?cs ! ?k)"
      using a(2) k by simp
    have "\<forall>k' < length ?cs. ?f (?cs ! k') \<le> ?f (?cs ! ?k)"
      using a(3) v by simp
    moreover have "\<forall>k' < ?k. ?f (?cs ! k') < ?f (?cs ! ?k)"
      using a(4) v k by simp
    ultimately show ?thesis
      using True rb k v by (intro exI [of _ ?k]) simp
  next
    case False
    note a = np_argmin_first [OF ne]
    let ?k = "np_argmin ?scores"
    have k: "?k < length ?cs"
      using a(1) by simp
    have v: "np_min ?scores = ?f (?cs ! ?k)"
      using a(2) k by simp
    have "\<forall>k' < length ?cs. ?f (?cs ! ?k) \<le> ?f (?cs ! k')"
      using a(3) v by simp
    moreover have "\<forall>k' < ?k. ?f (?cs ! ?k) < ?f (?cs ! k')"
      using a(4) v k by simp
    ultimately show ?thesis
      using False rb k v by (intro exI [of _ ?k]) simp
  qed
qed

subsection \<open>The minimax value of the specification\<close>

text \<open>
  Written from the words of the specification, not from \<open>read_board\<close>: the outcome of a
  board (a line of player one first, then a line of player two, then in progress when an
  empty cell remains, else a draw); the score of a finished board from the side of the
  agent; and the backed-up value of a board: the score of its outcome when the game is
  over, otherwise the maximum of the values of the boards after each candidate move when
  the agent is to move, and the minimum when the other player is. The other player of mark
  2 is mark 1 and of mark 1 is mark 2; for a mark that is no player the program goes on
  with mark 2.
\<close>

datatype outcome = InProgress | PlayerOneWin | PlayerTwoWin | Draw

definition evaluate :: "grid \<Rightarrow> outcome" where
  "evaluate board =
     (if three_in_a_row board 1 then PlayerOneWin
      else if three_in_a_row board 2 then PlayerTwoWin
      else if has_empty board then InProgress else Draw)"

fun terminal_score :: "u8 \<Rightarrow> outcome \<Rightarrow> int" where
  "terminal_score agent Draw = 0"
| "terminal_score agent PlayerOneWin = (if agent = 1 then 1 else - 1)"
| "terminal_score agent PlayerTwoWin = (if agent = 2 then 1 else - 1)"
| "terminal_score agent InProgress = 0"

definition opponent :: "u8 \<Rightarrow> u8" where
  "opponent player = (if player = 2 then 1 else 2)"

function minimax_value :: "u8 \<Rightarrow> grid \<Rightarrow> u8 \<Rightarrow> int" where
  "minimax_value agent board player =
     (if \<not> shape3 board then 0
      else if evaluate board \<noteq> InProgress then terminal_score agent (evaluate board)
      else if agent = player
      then Max (set (map (\<lambda>m. minimax_value agent (setitem board (fst m) (snd m) player)
                                (opponent player)) (candidates board)))
      else Min (set (map (\<lambda>m. minimax_value agent (setitem board (fst m) (snd m) player)
                                (opponent player)) (candidates board))))"
  by pat_completeness auto

lemma candidate_decreases:
  assumes "shape3 board" and "m \<in> set (candidates board)"
  shows "search_measure (setitem board (fst m) (snd m) player) (opponent player)
         < search_measure board player"
  using assms move_decreases [of "fst m" "snd m" board player]
  by (simp add: np_where_zero_candidates opponent_def)

termination minimax_value
  by (relation "measure (\<lambda>(a, b, p). search_measure b p)") (auto intro: candidate_decreases)

declare minimax_value.simps [simp del]

lemma uint_mark:
  "uint (a::u8) = 1 \<longleftrightarrow> a = 1" "uint (a::u8) = 2 \<longleftrightarrow> a = 2"
proof -
  have "uint a = 1 \<longleftrightarrow> uint a = uint (1::u8)" "uint a = 2 \<longleftrightarrow> uint a = uint (2::u8)"
    by simp_all
  then show "uint a = 1 \<longleftrightarrow> a = 1" "uint a = 2 \<longleftrightarrow> a = 2"
    by (simp_all only: word_uint_eq_iff [symmetric])
qed

lemma check_board_evaluate:
  assumes "shape3 board"
  shows "check_board board = 0 \<longleftrightarrow> evaluate board = InProgress"
    and "check_board board \<noteq> 0 \<Longrightarrow>
      (if check_board board = - 1 then 0
       else if check_board board = uint agent then 1 else - 1)
      = terminal_score agent (evaluate board)"
  by (auto simp: check_board_spec [OF assms] evaluate_def uint_mark split: if_splits)

lemma read_board_minimax:
  assumes "shape3 board"
  shows "fst (read_board agent board player) = minimax_value agent board player"
  using assms
proof (induction "search_measure board player" arbitrary: board player rule: less_induct)
  case less
  note s = less.prems
  show ?case
  proof (cases "check_board board = 0")
    case False
    then have "evaluate board \<noteq> InProgress"
      using check_board_evaluate(1) [OF s] by simp
    then show ?thesis
      using False s check_board_evaluate(2) [OF s False, of agent]
      by (simp add: read_board_stop minimax_value.simps [of agent board player])
  next
    case True
    then have e: "evaluate board = InProgress"
      using check_board_evaluate(1) [OF s] by simp
    let ?cs = "candidates board"
    have cs: "np_where_zero board = ?cs"
      using s by (rule np_where_zero_candidates)
    have ne: "?cs \<noteq> []"
      using moves_nonempty [OF True] cs by simp
    have ih: "backed_up agent board player m
        = minimax_value agent (setitem board (fst m) (snd m) player) (opponent player)"
      if "m \<in> set ?cs" for m
      unfolding backed_up_def opponent_def [symmetric]
      by (rule less.hyps) (use s that in \<open>simp_all add: candidate_decreases shape3_setitem\<close>)
    have sc: "map (backed_up agent board player) ?cs
        = map (\<lambda>m. minimax_value agent (setitem board (fst m) (snd m) player)
                     (opponent player)) ?cs"
      using ih by simp
    let ?vs = "map (\<lambda>m. minimax_value agent (setitem board (fst m) (snd m) player)
                     (opponent player)) ?cs"
    have vne: "?vs \<noteq> []"
      using ne by simp
    have "fst (read_board agent board player)
        = (if agent = player then np_max (map (backed_up agent board player) (np_where_zero board))
           else np_min (map (backed_up agent board player) (np_where_zero board)))"
      by (simp add: read_board_search [OF True] Let_def)
    also have "\<dots> = (if agent = player then np_max ?vs else np_min ?vs)"
      by (simp only: cs sc)
    also have "\<dots> = (if agent = player then Max (set ?vs) else Min (set ?vs))"
      by (simp only: np_max_Max [OF vne] np_min_Min [OF vne])
    also have "\<dots> = minimax_value agent board player"
      by (subst minimax_value.simps) (simp only: s e simp_thms if_True if_False)
    finally show ?thesis .
  qed
qed

definition child_value :: "u8 \<Rightarrow> grid \<Rightarrow> u8 \<Rightarrow> nat \<times> nat \<Rightarrow> int" where
  "child_value agent board player m =
     minimax_value agent (setitem board (fst m) (snd m) player) (opponent player)"

lemma backed_up_child_value:
  assumes "shape3 board"
  shows "backed_up agent board player m = child_value agent board player m"
  unfolding backed_up_def child_value_def opponent_def [symmetric]
  by (rule read_board_minimax) (rule shape3_setitem [OF assms])

text \<open>
  Claim C2. On every 3 by 3 board that is not finished, the moves \<open>read_board\<close> explores
  are the empty cells in row-major scan order (lemma \<open>np_where_zero_candidates\<close>); the
  score it returns is the minimax value of the board, backed up from the outcomes of the
  finished games; and the move it returns is the candidate \<open>k\<close> such that, when the player
  to move is the agent's own mark, no candidate has a greater value and every earlier
  candidate has a strictly smaller one, and otherwise no candidate has a smaller value and
  every earlier one has a strictly greater one.
\<close>

theorem read_board_minimax_choice:
  assumes "shape3 board" and "check_board board = 0"
  shows "fst (read_board agent board player) = minimax_value agent board player
     \<and> (\<exists>k < length (candidates board).
         read_board agent board player =
           (child_value agent board player (candidates board ! k), Some (candidates board ! k))
         \<and> (if agent = player
            then (\<forall>k' < length (candidates board).
                     child_value agent board player (candidates board ! k')
                     \<le> child_value agent board player (candidates board ! k))
               \<and> (\<forall>k' < k. child_value agent board player (candidates board ! k')
                     < child_value agent board player (candidates board ! k))
            else (\<forall>k' < length (candidates board).
                     child_value agent board player (candidates board ! k)
                     \<le> child_value agent board player (candidates board ! k'))
               \<and> (\<forall>k' < k. child_value agent board player (candidates board ! k)
                     < child_value agent board player (candidates board ! k'))))"
proof -
  have b: "backed_up agent board player = child_value agent board player"
    using backed_up_child_value [OF assms(1)] by (simp add: fun_eq_iff)
  show ?thesis
    using read_board_minimax [OF assms(1), of agent player]
      read_board_choice [OF assms, of agent player]
    unfolding b by (intro conjI)
qed

section \<open>Arrays in a store: the objects of the program\<close>

text \<open>
  A numpy array is a mutable object and a Python variable holds a reference to it. The
  store is the list of the arrays allocated so far, a reference is an index into it, and
  a new array is appended. An object of the class \<open>Board\<close> has the one field
  \<^verbatim>\<open>self.__board\<close>, a reference.
\<close>

type_synonym ref = nat
type_synonym store = "grid list"

record board_obj =
  board_ref :: ref

text \<open>\<^verbatim>\<open>a.copy()\<close> allocates a new array with the contents of \<open>a\<close>; \<^verbatim>\<open>a[i,j] = v\<close>
  writes into the array \<open>a\<close> refers to.\<close>

definition ndarray_copy :: "ref \<Rightarrow> store \<Rightarrow> ref \<times> store" where
  "ndarray_copy a s = (length s, s @ [s ! a])"

definition ndarray_setitem :: "ref \<Rightarrow> nat \<Rightarrow> nat \<Rightarrow> u8 \<Rightarrow> store \<Rightarrow> store" where
  "ndarray_setitem a i j v s = s[a := setitem (s ! a) i j v]"

text \<open>
  The methods of \<open>Board\<close> on the store: \<^verbatim>\<open>__init__\<close> and \<^verbatim>\<open>erase_board\<close> bind the
  field to a new array of zeros, \<^verbatim>\<open>play\<close> writes into the array of the field,
  \<^verbatim>\<open>check_board\<close> reads it, \<^verbatim>\<open>get_board\<close> returns a copy, and \<^verbatim>\<open>set_board\<close>
  binds the field to the reference it is given.
\<close>

definition Board_init :: "store \<Rightarrow> board_obj \<times> store" where
  "Board_init s = (\<lparr>board_ref = length s\<rparr>, s @ [zeros])"

definition erase_board :: "board_obj \<Rightarrow> store \<Rightarrow> board_obj \<times> store" where
  "erase_board self s = (self\<lparr>board_ref := length s\<rparr>, s @ [zeros])"

definition Board_play :: "board_obj \<Rightarrow> u8 \<Rightarrow> int \<Rightarrow> int \<Rightarrow> store \<Rightarrow> (bool \<times> string list) \<times> store" where
  "Board_play self player row_i col_j s =
     (case play (s ! board_ref self) player row_i col_j of
        (ok, out, g) \<Rightarrow> ((ok, out), s[board_ref self := g]))"

definition Board_check_board :: "board_obj \<Rightarrow> store \<Rightarrow> int" where
  "Board_check_board self s = check_board (s ! board_ref self)"

definition get_board :: "board_obj \<Rightarrow> store \<Rightarrow> ref \<times> store" where
  "get_board self s = ndarray_copy (board_ref self) s"

definition set_board :: "board_obj \<Rightarrow> ref \<Rightarrow> board_obj" where
  "set_board self board = self\<lparr>board_ref := board\<rparr>"

subsection \<open>\<^verbatim>\<open>Agent.read_board\<close> on the store\<close>

text \<open>
  The method as it runs: it makes a \<open>Board\<close>, binds it to the argument array with
  \<^verbatim>\<open>set_board\<close> and reads the outcome; then, for each possible move, it copies the
  argument array, writes the mark into the copy and calls itself on the copy. The store is
  threaded through all calls. \<open>explore\<close> is one round of the \<^verbatim>\<open>for\<close> loop, with the list
  of scores and the store as the state of the loop. The first argument of
  \<open>read_board_st\<close> bounds the depth of the recursion; \<open>None\<close> means the bound was
  reached.
\<close>

definition explore ::
  "(ref \<Rightarrow> store \<Rightarrow> ((int \<times> (nat \<times> nat) option) \<times> store) option) \<Rightarrow> ref \<Rightarrow> u8 \<Rightarrow>
   nat \<times> nat \<Rightarrow> (int list \<times> store) option \<Rightarrow> (int list \<times> store) option" where
  "explore recurse board player m acc =
     (case acc of
        None \<Rightarrow> None
      | Some (scores, s) \<Rightarrow>
          (case ndarray_copy board s of
             (tmp_board, s) \<Rightarrow>
               (case recurse tmp_board (ndarray_setitem tmp_board (fst m) (snd m) player s) of
                  None \<Rightarrow> None
                | Some ((score, _), s) \<Rightarrow> Some (scores @ [score], s))))"

fun read_board_st ::
  "nat \<Rightarrow> u8 \<Rightarrow> ref \<Rightarrow> u8 \<Rightarrow> store \<Rightarrow> ((int \<times> (nat \<times> nat) option) \<times> store) option" where
  "read_board_st 0 self_player board player s = None"
| "read_board_st (Suc fuel) self_player board player s =
     (case Board_init s of
        (tmp_board, s) \<Rightarrow>
          (let tmp_board = set_board tmp_board board;
               value = Board_check_board tmp_board s
           in if value \<noteq> 0 then
                (let score = (if value = - 1 then 0 else if value = uint self_player then 1 else - 1)
                 in Some ((score, None), s))
              else
                (let possible_moves = np_where_zero (s ! board) in
                 case fold (explore (\<lambda>tmp_board s.
                                read_board_st fuel self_player tmp_board
                                  (if player = 2 then 1 else 2) s) board player)
                        possible_moves (Some ([], s)) of
                   None \<Rightarrow> None
                 | Some (scores, s) \<Rightarrow>
                     if self_player = player
                     then (let idx = np_argmax scores
                           in Some ((np_max scores, Some (possible_moves ! idx)), s))
                     else (let idx = np_argmin scores
                           in Some ((np_min scores, Some (possible_moves ! idx)), s)))))"

text \<open>A later store extends an earlier one: arrays were allocated, none was changed.\<close>

definition extends :: "store \<Rightarrow> store \<Rightarrow> bool" where
  "extends s s' = (\<exists>t. s' = s @ t)"

lemma extends_refl: "extends s s"
  by (simp add: extends_def)

lemma extends_append: "extends s (s @ t)"
  by (auto simp: extends_def)

lemma extends_trans: "extends s s' \<Longrightarrow> extends s' s'' \<Longrightarrow> extends s s''"
  by (auto simp: extends_def)

lemma extends_nth: "extends s s' \<Longrightarrow> a < length s \<Longrightarrow> s' ! a = s ! a"
  by (auto simp: extends_def nth_append)

lemma extends_length: "extends s s' \<Longrightarrow> length s \<le> length s'"
  by (auto simp: extends_def)

lemma explore_loop:
  assumes rec: "\<And>tmp s. tmp < length s \<Longrightarrow> (\<exists>m \<in> set ms. s ! tmp = setitem g (fst m) (snd m) player)
            \<Longrightarrow> \<exists>r s'. recurse tmp s = Some (r, s') \<and> fst r = f (s ! tmp) \<and> extends s s'"
    and "board < length s" and "s ! board = g"
  shows "\<exists>s'. fold (explore recurse board player) ms (Some (scores, s))
             = Some (scores @ map (\<lambda>m. f (setitem g (fst m) (snd m) player)) ms, s')
           \<and> extends s s'"
  using assms
proof (induction ms arbitrary: scores s)
  case Nil
  then show ?case
    by (simp add: extends_refl)
next
  case (Cons m ms)
  let ?tmp = "length s"
  let ?s1 = "s @ [s ! board]"
  let ?s2 = "ndarray_setitem ?tmp (fst m) (snd m) player ?s1"
  have s2: "?s2 = s @ [setitem g (fst m) (snd m) player]"
    using Cons.prems(3) by (simp add: ndarray_setitem_def)
  have "\<exists>r s'. recurse ?tmp ?s2 = Some (r, s') \<and> fst r = f (?s2 ! ?tmp) \<and> extends ?s2 s'"
    by (rule Cons.prems(1)) (simp_all add: s2)
  then obtain r s3 where r: "recurse ?tmp ?s2 = Some (r, s3)"
    "fst r = f (setitem g (fst m) (snd m) player)" "extends ?s2 s3"
    by (auto simp: s2)
  have e: "extends s s3"
    using extends_append [of s] r(3) unfolding s2 by (rule extends_trans)
  have step: "explore recurse board player m (Some (scores, s))
      = Some (scores @ [f (setitem g (fst m) (snd m) player)], s3)"
    using r(1,2) by (cases r) (simp add: explore_def ndarray_copy_def)
  have b3: "board < length s3" "s3 ! board = g"
    using Cons.prems(2,3) extends_length [OF e] extends_nth [OF e, of board] by auto
  have "\<exists>s'. fold (explore recurse board player) ms
            (Some (scores @ [f (setitem g (fst m) (snd m) player)], s3))
          = Some ((scores @ [f (setitem g (fst m) (snd m) player)])
                    @ map (\<lambda>m. f (setitem g (fst m) (snd m) player)) ms, s')
        \<and> extends s3 s'"
    using Cons.prems(1) b3 by (intro Cons.IH) auto
  then obtain s' where "fold (explore recurse board player) ms
            (Some (scores @ [f (setitem g (fst m) (snd m) player)], s3))
          = Some ((scores @ [f (setitem g (fst m) (snd m) player)])
                    @ map (\<lambda>m. f (setitem g (fst m) (snd m) player)) ms, s')"
    and "extends s3 s'"
    by blast
  with step e show ?case
    by (auto intro: extends_trans)
qed

lemma read_board_st_refines:
  assumes "board < length s" and "search_measure (s ! board) player < fuel"
  shows "\<exists>s'. read_board_st fuel self_player board player s
             = Some (read_board self_player (s ! board) player, s')
           \<and> extends s s'"
  using assms
proof (induction fuel arbitrary: board player s)
  case 0
  then show ?case by simp
next
  case (Suc fuel)
  let ?g = "s ! board"
  let ?s1 = "s @ [zeros]"
  let ?next = "if player = 2 then 1 else 2 :: u8"
  have g1: "?s1 ! board = ?g"
    using Suc.prems(1) by (simp add: nth_append)
  show ?case
  proof (cases "check_board ?g = 0")
    case False
    then show ?thesis
      using g1
      by (simp add: Board_init_def set_board_def Board_check_board_def Let_def
          read_board.simps [of self_player ?g player] extends_append)
  next
    case True
    let ?ms = "np_where_zero ?g"
    let ?f = "\<lambda>b. fst (read_board self_player b ?next)"
    let ?rec = "\<lambda>tmp s. read_board_st fuel self_player tmp ?next s"
    have rec: "\<exists>r s'. ?rec tmp t = Some (r, s') \<and> fst r = ?f (t ! tmp) \<and> extends t s'"
      if "tmp < length t" and "\<exists>m \<in> set ?ms. t ! tmp = setitem ?g (fst m) (snd m) player"
      for tmp t
    proof -
      from that(2) obtain i j where m: "(i, j) \<in> set ?ms" "t ! tmp = setitem ?g i j player"
        by auto
      have "search_measure (t ! tmp) ?next < search_measure ?g player"
        using move_decreases [OF m(1), of player] m(2) by simp
      with Suc.prems(2) have "search_measure (t ! tmp) ?next < fuel"
        by simp
      from Suc.IH [OF that(1) this] obtain s' where
        "?rec tmp t = Some (read_board self_player (t ! tmp) ?next, s')" "extends t s'"
        by blast
      then show ?thesis
        by (intro exI [of _ "read_board self_player (t ! tmp) ?next"] exI [of _ s']) simp

    qed
    have "\<exists>s'. fold (explore ?rec board player) ?ms (Some ([], ?s1))
             = Some ([] @ map (\<lambda>m. ?f (setitem ?g (fst m) (snd m) player)) ?ms, s')
           \<and> extends ?s1 s'"
      using rec Suc.prems(1) g1 by (intro explore_loop) auto
    then obtain s' where loop: "fold (explore ?rec board player) ?ms (Some ([], ?s1))
             = Some (map (\<lambda>m. ?f (setitem ?g (fst m) (snd m) player)) ?ms, s')"
      and e: "extends ?s1 s'"
      by auto
    have sc: "map (\<lambda>m. ?f (setitem ?g (fst m) (snd m) player)) ?ms
        = map (\<lambda>(i, j). ?f (setitem ?g i j player)) ?ms"
      by (simp add: case_prod_beta)
    have e': "extends s s'"
      using extends_append e by (rule extends_trans)
    show ?thesis
      using True g1 loop e'
      by (simp add: Board_init_def set_board_def Board_check_board_def Let_def
          read_board.simps [of self_player ?g player] sc)
  qed
qed

lemma count_zero_3x3:
  assumes "shape3 board"
  shows "count_zero board \<le> 9"
proof -
  from assms obtain a0 a1 a2 b0 b1 b2 c0 c1 c2
    where b: "board = [[a0, a1, a2], [b0, b1, b2], [c0, c1, c2]]"
    by (rule shape3E)
  show ?thesis
    unfolding b by (simp add: count_zero_def)
qed

lemma search_measure_3x3:
  assumes "shape3 board"
  shows "search_measure board player < 20"
  using count_zero_3x3 [OF assms] by (simp add: search_measure_def)

text \<open>
  Claim C7. For every 3 by 3 array in the store and every player to move, the call of
  \<open>read_board\<close> on it returns (with a depth bound of 20 or more) and leaves the argument
  array, and every other array that existed before the call, exactly as it was: the search
  writes to the copies it allocates only.
\<close>

theorem read_board_frame:
  assumes "board < length s" and "shape3 (s ! board)" and "20 \<le> fuel"
  shows "\<exists>r s'. read_board_st fuel self_player board player s = Some (r, s')
           \<and> r = read_board self_player (s ! board) player
           \<and> length s \<le> length s' \<and> (\<forall>a < length s. s' ! a = s ! a)
           \<and> s' ! board = s ! board"
proof -
  have "search_measure (s ! board) player < fuel"
    using search_measure_3x3 [OF assms(2), of player] assms(3) by simp
  from read_board_st_refines [OF assms(1) this, of self_player]
  obtain s' where r: "read_board_st fuel self_player board player s
      = Some (read_board self_player (s ! board) player, s')" and e: "extends s s'"
    by blast
  from e have "length s \<le> length s'" "\<forall>a < length s. s' ! a = s ! a"
    by (auto simp: extends_length extends_nth)
  with r assms(1) show ?thesis
    by simp
qed

theorem read_board_frame_witness:
  "\<exists>r s'. read_board_st 20 2 1 2 [zeros, [[1, 2, 1], [1, 2, 2], [0, 1, 0]]] = Some (r, s')
     \<and> r = read_board 2 ([zeros, [[1, 2, 1], [1, 2, 2], [0, 1, 0]]] ! 1) 2
     \<and> length [zeros, [[1, 2, 1], [1, 2, 2], [0, 1, 0 :: u8]]] \<le> length s'
     \<and> (\<forall>a < length [zeros, [[1, 2, 1], [1, 2, 2], [0, 1, 0 :: u8]]].
           s' ! a = [zeros, [[1, 2, 1], [1, 2, 2], [0, 1, 0]]] ! a)
     \<and> s' ! 1 = [zeros, [[1, 2, 1], [1, 2, 2], [0, 1, 0]]] ! 1"
proof -
  let ?s = "[zeros, [[1, 2, 1], [1, 2, 2], [0, 1, 0 :: u8]]]"
  have a: "1 < length ?s"
    by simp
  have b: "shape3 (?s ! 1)"
    by (simp add: shape3_def)
  have c: "(20::nat) \<le> 20"
    by simp
  show ?thesis
    by (rule read_board_frame [OF a b c])
qed

text \<open>
  Claim C8 says that every recursive call strictly decreases the number of empty cells, for
  every player to move. With the mark 0 to move this fails: on the empty board the search
  goes on (outcome 0), the cell (0, 0) is a possible move, and writing 0 into it leaves the
  number of empty cells as it was.
\<close>

theorem first_ply_counterexample:
  "check_board zeros = 0 \<and> (0, 0) \<in> set (np_where_zero zeros)
   \<and> \<not> count_zero (setitem zeros 0 0 0) < count_zero zeros"
proof -
  have z: "zeros = [[0, 0, 0], [0, 0, 0], [0, 0, 0]]"
    by (simp add: zeros_def numeral_3_eq_3)
  have "check_board zeros = 0"
    unfolding z by (simp add: check_board_def wins_3x3 any_zero_3x3)
  moreover have "(0, 0) \<in> set (np_where_zero zeros)"
    unfolding z by (simp add: np_where_zero_iff)
  moreover have "setitem zeros 0 0 0 = zeros"
    unfolding z by (simp add: setitem_def)
  ultimately show ?thesis
    by simp
qed

text \<open>
  Claim C8, amended. \<open>read_board\<close> is total on every 3 by 3 board and every player to move:
  with a depth bound of 20 or more the search on the store returns, and its result is that
  of the function \<open>read_board\<close>. Every recursive call is made on a 3 by 3 board of a
  strictly smaller measure; it strictly decreases the number of empty cells when the mark
  to move is not 0, and when it is 0 the board is unchanged and the next mark to move is 2.
\<close>

theorem read_board_terminates:
  assumes "board < length s" and "shape3 (s ! board)" and "20 \<le> fuel"
  shows "(\<exists>s'. read_board_st fuel self_player board player s
             = Some (read_board self_player (s ! board) player, s'))
       \<and> (\<forall>m \<in> set (np_where_zero (s ! board)).
            shape3 (setitem (s ! board) (fst m) (snd m) player)
            \<and> search_measure (setitem (s ! board) (fst m) (snd m) player)
                 (if player = 2 then 1 else 2)
               < search_measure (s ! board) player
            \<and> (player \<noteq> 0 \<longrightarrow>
                 count_zero (setitem (s ! board) (fst m) (snd m) player) < count_zero (s ! board))
            \<and> (player = 0 \<longrightarrow>
                 setitem (s ! board) (fst m) (snd m) player = s ! board
                 \<and> (if player = 2 then 1 else 2) = (2::u8)))"
proof (intro conjI ballI)
  have "search_measure (s ! board) player < fuel"
    using search_measure_3x3 [OF assms(2), of player] assms(3) by simp
  from read_board_st_refines [OF assms(1) this, of self_player]
  show "\<exists>s'. read_board_st fuel self_player board player s
      = Some (read_board self_player (s ! board) player, s')"
    by blast
next
  fix m assume m: "m \<in> set (np_where_zero (s ! board))"
  obtain i j where ij: "m = (i, j)"
    by (cases m)
  from m ij have r: "i < length (s ! board)" "j < length (s ! board ! i)" "s ! board ! i ! j = 0"
    by (auto simp: np_where_zero_iff)
  show "shape3 (setitem (s ! board) (fst m) (snd m) player)"
    using assms(2) by (rule shape3_setitem)
  show "search_measure (setitem (s ! board) (fst m) (snd m) player) (if player = 2 then 1 else 2)
      < search_measure (s ! board) player"
    using m move_decreases [of i j "s ! board" player] by (simp add: ij)
  show "player \<noteq> 0 \<longrightarrow>
      count_zero (setitem (s ! board) (fst m) (snd m) player) < count_zero (s ! board)"
    using count_zero_setitem [OF r, of player] by (auto simp: ij)
  show "player = 0 \<longrightarrow> setitem (s ! board) (fst m) (snd m) player = s ! board
      \<and> (if player = 2 then 1 else 2) = (2::u8)"
    using setitem_same [OF r] by (auto simp: ij)
qed

theorem read_board_terminates_witness:
  "(\<exists>s'. read_board_st 20 2 0 1 [[[1, 2, 1], [1, 2, 2], [0, 1, 0]]]
            = Some (read_board 2 ([[[1, 2, 1], [1, 2, 2], [0, 1, 0]]] ! 0) 1, s'))
   \<and> (2, 0) \<in> set (np_where_zero ([[[1, 2, 1], [1, 2, 2], [0, 1, 0]]] ! 0))
   \<and> count_zero (setitem ([[[1, 2, 1], [1, 2, 2], [0, 1, 0]]] ! 0) 2 0 1)
       < count_zero ([[[1, 2, 1], [1, 2, 2], [0, 1, 0]]] ! 0)"
proof -
  let ?s = "[[[1, 2, 1], [1, 2, 2], [0, 1, 0 :: u8]]]"
  have a: "0 < length ?s"
    by simp
  have b: "shape3 (?s ! 0)"
    by (simp add: shape3_def)
  have c: "(20::nat) \<le> 20"
    by simp
  have m: "(2, 0) \<in> set (np_where_zero (?s ! 0))"
    by (simp add: np_where_zero_iff)
  have p: "(1::u8) \<noteq> 0"
    by simp
  from read_board_terminates [OF a b c, of 2 1] m p show ?thesis
    by fastforce
qed

text \<open>
  Claim C9. \<open>set_board\<close> binds the field to the caller's array itself, without a copy and
  whatever the array holds or its shape: a later write of the caller to that array is what
  \<open>check_board\<close> and \<open>get_board\<close> of the object then see, and a move played through the
  object changes the caller's array. \<open>get_board\<close>, in contrast, returns a new array, and a
  write to it leaves the array of the object as it was.
\<close>

theorem set_board_aliases:
  assumes "board < length s" and "board_ref self < length s"
  shows "board_ref (set_board self board) = board
       \<and> Board_check_board (set_board self board) (ndarray_setitem board i j v s)
           = check_board (setitem (s ! board) i j v)
       \<and> fst (get_board (set_board self board) (ndarray_setitem board i j v s)) = length s
       \<and> snd (get_board (set_board self board) (ndarray_setitem board i j v s)) ! length s
           = setitem (s ! board) i j v
       \<and> snd (Board_play (set_board self board) player row_i col_j s) ! board
           = snd (snd (play (s ! board) player row_i col_j))
       \<and> fst (get_board self s) \<noteq> board_ref self
       \<and> snd (get_board self s) ! fst (get_board self s) = s ! board_ref self
       \<and> ndarray_setitem (fst (get_board self s)) i j v (snd (get_board self s)) ! board_ref self
           = s ! board_ref self"
  using assms
  by (auto simp: set_board_def Board_check_board_def ndarray_setitem_def get_board_def
      ndarray_copy_def Board_play_def nth_append split: prod.splits)

theorem set_board_aliases_witness:
  "Board_check_board (set_board \<lparr>board_ref = 0\<rparr> 1) (ndarray_setitem 1 0 0 1 [zeros, [[0, 1], [2, 0]]])
     = check_board (setitem [[0, 1], [2, 0]] 0 0 1)
   \<and> snd (Board_play (set_board \<lparr>board_ref = 0\<rparr> 1) 2 0 0 [zeros, [[0, 1], [2, 0]]]) ! 1
     = [[2, 1], [2, 0]]
   \<and> fst (get_board \<lparr>board_ref = 0\<rparr> [zeros, [[0, 1], [2, 0]]]) = 2"
proof -
  let ?s = "[zeros, [[0, 1], [2, 0 :: u8]]]"
  have a: "1 < length ?s" "board_ref \<lparr>board_ref = 0\<rparr> < length ?s"
    by simp_all
  have p: "snd (snd (play [[0, 1], [2, 0]] 2 0 0)) = [[2, 1], [2, 0]]"
    by (simp add: play_def n_rows_def n_cols_def setitem_def)
  have g: "fst (get_board \<lparr>board_ref = 0\<rparr> ?s) = 2"
    by (simp add: get_board_def ndarray_copy_def)
  from set_board_aliases [OF a, of 0 0 1 2 0 0] p g show ?thesis
    by simp
qed

section \<open>The value of the empty board\<close>

text \<open>
  The full tree below the empty board has 549946 nodes. To evaluate the score of the root
  inside the logic, \<open>score_ge t\<close> decides whether the score \<open>read_board\<close> returns is at
  least \<open>t\<close>: at a node where the agent moves one move reaching \<open>t\<close> is enough, at a node
  where the other player moves all moves must reach it. It is shown to agree with
  \<open>read_board\<close> on every board (lemma \<open>score_ge_iff\<close>), and evaluating it visits a
  fraction of the tree.
\<close>

function score_ge :: "int \<Rightarrow> u8 \<Rightarrow> grid \<Rightarrow> u8 \<Rightarrow> bool" where
  "score_ge t self_player board player =
     (if check_board board \<noteq> 0 then
        t \<le> (if check_board board = - 1 then 0
              else if check_board board = uint self_player then 1 else - 1)
      else if self_player = player then
        list_ex (\<lambda>m. score_ge t self_player (setitem board (fst m) (snd m) player)
                        (if player = 2 then 1 else 2))
          (np_where_zero board)
      else
        list_all (\<lambda>m. score_ge t self_player (setitem board (fst m) (snd m) player)
                         (if player = 2 then 1 else 2))
          (np_where_zero board))"
  by pat_completeness auto

termination score_ge
proof (relation "measure (\<lambda>(t, a, b, p). search_measure b p)", goal_cases)
  case 1
  show ?case by simp
next
  case (2 t self_player board player m)
  then show ?case
    using move_decreases [of "fst m" "snd m" board player] by simp
next
  case (3 t self_player board player m)
  then show ?case
    using move_decreases [of "fst m" "snd m" board player] by simp
qed

declare score_ge.simps [simp del]

lemma score_ge_iff:
  "score_ge t self_player board player \<longleftrightarrow> t \<le> fst (read_board self_player board player)"
proof (induction t self_player board player rule: score_ge.induct)
  case (1 t self_player board player)
  let ?ms = "np_where_zero board"
  let ?f = "backed_up self_player board player"
  show ?case
  proof (cases "check_board board = 0")
    case False
    then show ?thesis
      by (simp add: score_ge.simps [of t self_player board player] read_board_stop)
  next
    case True
    have ne: "map ?f ?ms \<noteq> []"
      using moves_nonempty [OF True] by simp
    have ih: "score_ge t self_player (setitem board (fst m) (snd m) player)
          (if player = 2 then 1 else 2) \<longleftrightarrow> t \<le> ?f m" if "m \<in> set ?ms" for m
      using "1.IH"(1) [of m] "1.IH"(2) [of m] True that
      by (cases "self_player = player") (simp_all add: backed_up_def)
    show ?thesis
    proof (cases "self_player = player")
      case same: True
      have "score_ge t self_player board player \<longleftrightarrow> (\<exists>m \<in> set ?ms. t \<le> ?f m)"
        by (subst score_ge.simps) (use True same ih in \<open>simp add: list_ex_iff\<close>)
      also have "\<dots> \<longleftrightarrow> t \<le> Max (set (map ?f ?ms))"
        using ne by (subst Max_ge_iff) auto
      also have "\<dots> \<longleftrightarrow> t \<le> fst (read_board self_player board player)"
        using same ne by (simp add: read_board_search [OF True] Let_def np_max_Max)
      finally show ?thesis .
    next
      case other: False
      have "score_ge t self_player board player \<longleftrightarrow> (\<forall>m \<in> set ?ms. t \<le> ?f m)"
        by (subst score_ge.simps) (use True other ih in \<open>simp add: list_all_iff\<close>)
      also have "\<dots> \<longleftrightarrow> t \<le> Min (set (map ?f ?ms))"
        using ne by (subst Min_ge_iff) auto
      also have "\<dots> \<longleftrightarrow> t \<le> fst (read_board self_player board player)"
        using other ne by (simp add: read_board_search [OF True] Let_def np_min_Min)
      finally show ?thesis .
    qed
  qed
qed

text \<open>
  Equations to evaluate \<open>score_ge\<close> by rewriting on a board written out cell by cell:
  the moves are tried one after the other, and a later move is looked at only when the
  earlier ones did not decide.
\<close>

definition ex_moves :: "int \<Rightarrow> u8 \<Rightarrow> grid \<Rightarrow> u8 \<Rightarrow> (nat \<times> nat) list \<Rightarrow> bool" where
  "ex_moves t a b p ms =
     list_ex (\<lambda>m. score_ge t a (setitem b (fst m) (snd m) p) (if p = 2 then 1 else 2)) ms"

definition all_moves :: "int \<Rightarrow> u8 \<Rightarrow> grid \<Rightarrow> u8 \<Rightarrow> (nat \<times> nat) list \<Rightarrow> bool" where
  "all_moves t a b p ms =
     list_all (\<lambda>m. score_ge t a (setitem b (fst m) (snd m) p) (if p = 2 then 1 else 2)) ms"

definition score_ge_node :: "int \<Rightarrow> u8 \<Rightarrow> grid \<Rightarrow> u8 \<Rightarrow> int \<Rightarrow> bool" where
  "score_ge_node t a b p v =
     (if v \<noteq> 0 then t \<le> (if v = - 1 then 0 else if v = uint a then 1 else - 1)
      else if a = p then ex_moves t a b p (np_where_zero b)
      else all_moves t a b p (np_where_zero b))"

lemma score_ge_step: "score_ge t a b p = score_ge_node t a b p (check_board b)"
  by (subst score_ge.simps) (simp add: score_ge_node_def ex_moves_def all_moves_def)

lemma ex_moves_Nil: "ex_moves t a b p [] = False"
  by (simp add: ex_moves_def)

lemma ex_moves_Cons:
  "ex_moves t a b p ((i, j) # ms) =
     (if score_ge t a (setitem b i j p) (if p = 2 then 1 else 2) then True
      else ex_moves t a b p ms)"
  by (simp add: ex_moves_def)

lemma all_moves_Nil: "all_moves t a b p [] = True"
  by (simp add: all_moves_def)

lemma all_moves_Cons:
  "all_moves t a b p ((i, j) # ms) =
     (if score_ge t a (setitem b i j p) (if p = 2 then 1 else 2) then all_moves t a b p ms
      else False)"
  by (simp add: all_moves_def)

lemma check_board_3x3:
  "check_board [[a, b, c], [d, e, f], [g, h, i]] =
     (if (a = 1 \<and> b = 1 \<and> c = 1) \<or> (a = 1 \<and> d = 1 \<and> g = 1) \<or> (d = 1 \<and> e = 1 \<and> f = 1) \<or>
         (b = 1 \<and> e = 1 \<and> h = 1) \<or> (g = 1 \<and> h = 1 \<and> i = 1) \<or> (c = 1 \<and> f = 1 \<and> i = 1) \<or>
         (a = 1 \<and> e = 1 \<and> i = 1) \<or> (c = 1 \<and> e = 1 \<and> g = 1) then 1
      else if (a = 2 \<and> b = 2 \<and> c = 2) \<or> (a = 2 \<and> d = 2 \<and> g = 2) \<or> (d = 2 \<and> e = 2 \<and> f = 2) \<or>
         (b = 2 \<and> e = 2 \<and> h = 2) \<or> (g = 2 \<and> h = 2 \<and> i = 2) \<or> (c = 2 \<and> f = 2 \<and> i = 2) \<or>
         (a = 2 \<and> e = 2 \<and> i = 2) \<or> (c = 2 \<and> e = 2 \<and> g = 2) then 2
      else if a = 0 \<or> b = 0 \<or> c = 0 \<or> d = 0 \<or> e = 0 \<or> f = 0 \<or> g = 0 \<or> h = 0 \<or> i = 0
      then 0 else - 1)"
  unfolding check_board_def Let_def wins_3x3 any_zero_3x3 by (rule refl)

lemma np_where_zero_3x3:
  "np_where_zero [[a, b, c], [d, e, f], [g, h, i]] =
     (if a = 0 then [(0, 0)] else []) @ (if b = 0 then [(0, 1)] else []) @
     (if c = 0 then [(0, 2)] else []) @ (if d = 0 then [(1, 0)] else []) @
     (if e = 0 then [(1, 1)] else []) @ (if f = 0 then [(1, 2)] else []) @
     (if g = 0 then [(2, 0)] else []) @ (if h = 0 then [(2, 1)] else []) @
     (if i = 0 then [(2, 2)] else [])"
  by (simp add: np_where_zero_def)

lemma setitem_3x3:
  "setitem [[a, b, c], r1, r2] 0 0 v = [[v, b, c], r1, r2]"
  "setitem [[a, b, c], r1, r2] 0 1 v = [[a, v, c], r1, r2]"
  "setitem [[a, b, c], r1, r2] 0 2 v = [[a, b, v], r1, r2]"
  "setitem [r0, [d, e, f], r2] 1 0 v = [r0, [v, e, f], r2]"
  "setitem [r0, [d, e, f], r2] 1 1 v = [r0, [d, v, f], r2]"
  "setitem [r0, [d, e, f], r2] 1 2 v = [r0, [d, e, v], r2]"
  "setitem [r0, r1, [g, h, i]] 2 0 v = [r0, r1, [v, h, i]]"
  "setitem [r0, r1, [g, h, i]] 2 1 v = [r0, r1, [g, v, i]]"
  "setitem [r0, r1, [g, h, i]] 2 2 v = [r0, r1, [g, h, v]]"
  by (simp_all add: setitem_def numeral_2_eq_2)

lemma mark_facts:
  "((0::u8) = 1) = False" "((0::u8) = 2) = False" "((1::u8) = 0) = False"
  "((1::u8) = 2) = False" "((2::u8) = 0) = False" "((2::u8) = 1) = False"
  "uint (1::u8) = 1" "uint (2::u8) = 2"
  by simp_all

lemma score_facts:
  "((1::int) = 0) = False" "((2::int) = 0) = False" "((- 1::int) = 0) = False"
  "((1::int) = - 1) = False" "((2::int) = - 1) = False"
  "((1::int) = 2) = False" "((2::int) = 1) = False"
  "((0::int) \<le> 0) = True" "((0::int) \<le> 1) = True" "((0::int) \<le> - 1) = False"
  "((1::int) \<le> 0) = False" "((1::int) \<le> 1) = True" "((1::int) \<le> - 1) = False"
  by simp_all

lemmas score_ge_eval = score_ge_step score_ge_node_def ex_moves_Nil ex_moves_Cons
  all_moves_Nil all_moves_Cons check_board_3x3 np_where_zero_3x3 setitem_3x3
  mark_facts score_facts simp_thms if_True if_False append.simps

lemma zeros_3x3: "zeros = [[0, 0, 0], [0, 0, 0], [0, 0, 0]]"
  by (simp add: zeros_def numeral_3_eq_3)

lemma agent_1_draws: "score_ge 0 1 [[0, 0, 0], [0, 0, 0], [0, 0, 0]] 1 = True"
  by (simp only: score_ge_eval cong: if_weak_cong)

lemma agent_2_draws: "score_ge 0 2 [[0, 0, 0], [0, 0, 0], [0, 0, 0]] 2 = True"
  by (simp only: score_ge_eval cong: if_weak_cong)

lemma agent_1_no_win: "score_ge 1 1 [[0, 0, 0], [0, 0, 0], [0, 0, 0]] 1 = False"
  by (simp only: score_ge_eval cong: if_weak_cong)

lemma agent_2_no_win: "score_ge 1 2 [[0, 0, 0], [0, 0, 0], [0, 0, 0]] 2 = False"
  by (simp only: score_ge_eval cong: if_weak_cong)

text \<open>
  Claim C1. On the empty 3 by 3 board, with the agent itself to move, \<open>read_board\<close>
  returns the score 0, whether the agent plays mark 1 or mark 2: neither side can force a
  win from the empty board.
\<close>

theorem empty_board_draw:
  "fst (read_board 1 zeros 1) = 0 \<and> fst (read_board 2 zeros 2) = 0"
proof -
  have "0 \<le> fst (read_board 1 zeros 1)" "\<not> 1 \<le> fst (read_board 1 zeros 1)"
    "0 \<le> fst (read_board 2 zeros 2)" "\<not> 1 \<le> fst (read_board 2 zeros 2)"
    using agent_1_draws agent_1_no_win agent_2_draws agent_2_no_win
    by (simp_all add: score_ge_iff zeros_3x3)
  then show ?thesis
    by simp
qed

section \<open>A position with two equally good moves\<close>

text \<open>Scores lie between -1 and 1, so a score of at least 1 is 1 and one below 0 is -1.\<close>

lemma score_range: "fst (read_board agent board player) \<in> {- 1, 0, 1}"
proof (induction "search_measure board player" arbitrary: board player rule: less_induct)
  case less
  show ?case
  proof (cases "check_board board = 0")
    case False
    then show ?thesis
      by (simp add: read_board_stop)
  next
    case True
    let ?vs = "map (backed_up agent board player) (np_where_zero board)"
    have ne: "?vs \<noteq> []"
      using moves_nonempty [OF True] by simp
    have "set ?vs \<subseteq> {- 1, 0, 1}"
    proof
      fix v assume "v \<in> set ?vs"
      then obtain m where m: "m \<in> set (np_where_zero board)" "v = backed_up agent board player m"
        by auto
      have "search_measure (setitem board (fst m) (snd m) player) (if player = 2 then 1 else 2)
          < search_measure board player"
        using move_decreases [of "fst m" "snd m" board player] m(1) by simp
      from less.hyps [OF this] show "v \<in> {- 1, 0, 1}"
        by (simp add: m(2) backed_up_def)
    qed
    moreover have "Max (set ?vs) \<in> set ?vs" "Min (set ?vs) \<in> set ?vs"
      using ne by (simp_all add: Max_in Min_in del: set_map)
    ultimately have "Max (set ?vs) \<in> {- 1, 0, 1}" "Min (set ?vs) \<in> {- 1, 0, 1}"
      by blast+
    moreover have "fst (read_board agent board player)
        = (if agent = player then Max (set ?vs) else Min (set ?vs))"
      using ne by (simp add: read_board_search [OF True] Let_def np_max_Max np_min_Min del: set_map)
    ultimately show ?thesis
      by (cases "agent = player") force+
  qed
qed

lemma score_is_1: "score_ge 1 agent board player \<Longrightarrow> fst (read_board agent board player) = 1"
  using score_range [of agent board player] by (auto simp: score_ge_iff)

lemma score_is_minus_1:
  "\<not> score_ge 0 agent board player \<Longrightarrow> fst (read_board agent board player) = - 1"
  using score_range [of agent board player] by (auto simp: score_ge_iff)

lemma child_value_eval:
  assumes "shape3 board"
  shows "child_value agent board player (i, j)
     = fst (read_board agent (setitem board i j player) (if player = 2 then 1 else 2))"
  using backed_up_child_value [OF assms, of agent player "(i, j)"]
  by (simp add: backed_up_def)

text \<open>
  An instance of claim C2 with a tie: on this board the moves (0, 1) and (0, 2) both win
  for mark 1. With the agent playing mark 1 the values of the four candidates are
  -1, 1, 1, -1 and the earlier of the two best moves is returned; with the agent playing
  mark 2 and mark 1 to move the values are 1, -1, -1, 1 and the earlier of the two least
  is returned.
\<close>

theorem read_board_minimax_choice_witness:
  "shape3 [[0, 0, 0], [0, 1, 2], [1, 1, 2 :: u8]]
   \<and> check_board [[0, 0, 0], [0, 1, 2], [1, 1, 2]] = 0
   \<and> candidates [[0, 0, 0], [0, 1, 2], [1, 1, 2]] = [(0, 0), (0, 1), (0, 2), (1, 0)]
   \<and> map (child_value 1 [[0, 0, 0], [0, 1, 2], [1, 1, 2]] 1)
        (candidates [[0, 0, 0], [0, 1, 2], [1, 1, 2]]) = [- 1, 1, 1, - 1]
   \<and> read_board 1 [[0, 0, 0], [0, 1, 2], [1, 1, 2]] 1 = (1, Some (0, 1))
   \<and> minimax_value 1 [[0, 0, 0], [0, 1, 2], [1, 1, 2]] 1 = 1
   \<and> map (child_value 2 [[0, 0, 0], [0, 1, 2], [1, 1, 2]] 1)
        (candidates [[0, 0, 0], [0, 1, 2], [1, 1, 2]]) = [1, - 1, - 1, 1]
   \<and> read_board 2 [[0, 0, 0], [0, 1, 2], [1, 1, 2]] 1 = (- 1, Some (0, 1))
   \<and> minimax_value 2 [[0, 0, 0], [0, 1, 2], [1, 1, 2]] 1 = - 1"
proof -
  let ?b = "[[0, 0, 0], [0, 1, 2], [1, 1, 2 :: u8]]"
  let ?cs = "[(0, 0), (0, 1), (0, 2), (1, 0) :: nat \<times> nat]"
  have s: "shape3 ?b"
    by (simp add: shape3_def)
  have c: "check_board ?b = 0"
    by (simp add: check_board_def wins_3x3 any_zero_3x3)
  have m: "candidates ?b = ?cs"
    by (simp add: candidates_def scan_order_def numeral_2_eq_2)
  have g1: "score_ge 0 1 [[1, 0, 0], [0, 1, 2], [1, 1, 2]] 2 = False"
    "score_ge 1 1 [[0, 1, 0], [0, 1, 2], [1, 1, 2]] 2 = True"
    "score_ge 1 1 [[0, 0, 1], [0, 1, 2], [1, 1, 2]] 2 = True"
    "score_ge 0 1 [[0, 0, 0], [1, 1, 2], [1, 1, 2]] 2 = False"
    by (simp_all only: score_ge_eval cong: if_weak_cong)
  have g2: "score_ge 1 2 [[1, 0, 0], [0, 1, 2], [1, 1, 2]] 2 = True"
    "score_ge 0 2 [[0, 1, 0], [0, 1, 2], [1, 1, 2]] 2 = False"
    "score_ge 0 2 [[0, 0, 1], [0, 1, 2], [1, 1, 2]] 2 = False"
    "score_ge 1 2 [[0, 0, 0], [1, 1, 2], [1, 1, 2]] 2 = True"
    by (simp_all only: score_ge_eval cong: if_weak_cong)
  have v1: "map (child_value 1 ?b 1) ?cs = [- 1, 1, 1, - 1]"
    using g1 by (simp add: child_value_eval [OF s] setitem_def score_is_1 score_is_minus_1)
  have v2: "map (child_value 2 ?b 1) ?cs = [1, - 1, - 1, 1]"
    using g2 by (simp add: child_value_eval [OF s] setitem_def score_is_1 score_is_minus_1)
  have n1: "child_value 1 ?b 1 (?cs ! j) = [- 1, 1, 1, - 1] ! j" if "j < 4" for j
    using that nth_map [of j ?cs "child_value 1 ?b 1"] by (simp only: v1 [symmetric]) simp
  have n2: "child_value 2 ?b 1 (?cs ! j) = [1, - 1, - 1, 1] ! j" if "j < 4" for j
    using that nth_map [of j ?cs "child_value 2 ?b 1"] by (simp only: v2 [symmetric]) simp
  note t1 = read_board_minimax_choice [OF s c, of 1 1, unfolded m]
  note t2 = read_board_minimax_choice [OF s c, of 2 1, unfolded m]
  from t1 [THEN conjunct2, simplified if_True simp_thms] obtain k where k: "k < length ?cs"
    "read_board 1 ?b 1 = (child_value 1 ?b 1 (?cs ! k), Some (?cs ! k))"
    "\<forall>k' < length ?cs. child_value 1 ?b 1 (?cs ! k') \<le> child_value 1 ?b 1 (?cs ! k)"
    "\<forall>k' < k. child_value 1 ?b 1 (?cs ! k') < child_value 1 ?b 1 (?cs ! k)"
    by blast
  have "k = 1"
  proof -
    from k(1) consider "k = 0" | "k = 1" | "k = 2" | "k = 3"
      by (auto simp: less_Suc_eq numeral_eq_Suc)
    then show ?thesis
    proof cases
      case 1
      with k(3) [rule_format, of 1] n1 [of 0] n1 [of 1] show ?thesis
        by simp
    next
      case 2
      then show ?thesis .
    next
      case 3
      with k(4) [rule_format, of 1] n1 [of 1] n1 [of 2] show ?thesis
        by simp
    next
      case 4
      with k(3) [rule_format, of 1] n1 [of 1] n1 [of 3] show ?thesis
        by simp
    qed
  qed
  with k(2) n1 [of 1] have r1: "read_board 1 ?b 1 = (1, Some (0, 1))"
    by simp
  from t2 [THEN conjunct2, simplified mark_facts if_False simp_thms] obtain k where
    k: "k < length ?cs"
    "read_board 2 ?b 1 = (child_value 2 ?b 1 (?cs ! k), Some (?cs ! k))"
    "\<forall>k' < length ?cs. child_value 2 ?b 1 (?cs ! k) \<le> child_value 2 ?b 1 (?cs ! k')"
    "\<forall>k' < k. child_value 2 ?b 1 (?cs ! k) < child_value 2 ?b 1 (?cs ! k')"
    by blast
  have "k = 1"
  proof -
    from k(1) consider "k = 0" | "k = 1" | "k = 2" | "k = 3"
      by (auto simp: less_Suc_eq numeral_eq_Suc)
    then show ?thesis
    proof cases
      case 1
      with k(3) [rule_format, of 1] n2 [of 0] n2 [of 1] show ?thesis
        by simp
    next
      case 2
      then show ?thesis .
    next
      case 3
      with k(4) [rule_format, of 1] n2 [of 1] n2 [of 2] show ?thesis
        by simp
    next
      case 4
      with k(3) [rule_format, of 1] n2 [of 1] n2 [of 3] show ?thesis
        by simp
    qed
  qed
  with k(2) n2 [of 1] have r2: "read_board 2 ?b 1 = (- 1, Some (0, 1))"
    by simp
  from t1 r1 have w1: "minimax_value 1 ?b 1 = 1"
    by simp
  from t2 r2 have w2: "minimax_value 2 ?b 1 = - 1"
    by simp
  from s c m v1 v2 r1 r2 w1 w2 show ?thesis
    by (simp only: m simp_thms)
qed

end
